theory Spec2Isabelle
  imports Complex_Main "HOL-Library.Log_Nat" "HOL-Library.Multiset"
begin

section \<open>Values and errors\<close>

text \<open>
  The repository is Python over numpy. Exceptions become values of \<open>error\<close>, and a
  function that may raise returns \<open>error + 'a\<close> with \<open>Inl\<close> for the exception.
\<close>

datatype error =
    AssertionError
  | IndexError
  | ValueError
  | LinAlgError
  | AttributeError
  | OverflowError
  | ModuleNotFoundError
  | RaisedException

section \<open>Floating-point values\<close>

text \<open>
  A numpy float is an IEEE 754 binary64 value: a finite number, an infinity or NaN. A finite
  value is kept as the real number it denotes, and every arithmetic operation rounds its exact
  result to binary64: \<open>expo x\<close> is the binary exponent \<open>\<lfloor>log\<^sub>2 \<bar>x\<bar>\<rfloor>\<close>, \<open>ulp x\<close> the spacing of the
  binary64 values around \<open>x\<close> (53 significant bits, gradual underflow below \<open>2\<^sup>-\<^sup>1\<^sup>0\<^sup>2\<^sup>2\<close>), and
  \<open>round64\<close> rounds to the nearest multiple of \<open>ulp x\<close>, ties to the even one, and overflows to
  an infinity from \<open>2\<^sup>1\<^sup>0\<^sup>2\<^sup>4\<close> on. A float literal of the source is \<open>round64\<close> of its decimal
  value. The sign of zero is not modelled (a finite value divided by zero takes the sign of
  the numerator). The special values follow IEEE 754, which is what numpy computes under
  \<^verbatim>\<open>np.seterr(divide='ignore')\<close>: NaN propagates, \<open>inf - inf\<close>, \<open>0 * inf\<close>, \<open>0 / 0\<close> and
  \<open>inf / inf\<close> are NaN, and every comparison with NaN is false.
\<close>

datatype npfloat = Fin real | PInf | NInf | NaN

definition expo :: "real \<Rightarrow> int" where
  "expo x = (if 1 \<le> \<bar>x\<bar> then bitlen \<lfloor>\<bar>x\<bar>\<rfloor> - 1 else - bitlen (\<lceil>1 / \<bar>x\<bar>\<rceil> - 1))"

definition round_half_even :: "real \<Rightarrow> int" where
  "round_half_even q =
     (let f = \<lfloor>q\<rfloor>
      in if q - of_int f < 1 / 2 then f
         else if 1 / 2 < q - of_int f then f + 1
         else if even f then f else f + 1)"

definition ulp :: "real \<Rightarrow> real" where
  "ulp x = 2 powi (max (expo x) (- 1022) - 52)"

definition round64 :: "real \<Rightarrow> npfloat" where
  "round64 x =
     (if x = 0 then Fin 0
      else let y = of_int (round_half_even (x / ulp x)) * ulp x
           in if 2 ^ 1024 \<le> \<bar>y\<bar> then (if 0 < x then PInf else NInf) else Fin y)"

text \<open>
  A value of the model is a binary64 value when it is special or rounding leaves it alone.
\<close>

definition isdouble :: "npfloat \<Rightarrow> bool" where
  "isdouble v = (case v of Fin x \<Rightarrow> round64 x = Fin x | _ \<Rightarrow> True)"

fun isnan :: "npfloat \<Rightarrow> bool" where
  "isnan NaN = True"
| "isnan _ = False"

fun isinf :: "npfloat \<Rightarrow> bool" where
  "isinf PInf = True"
| "isinf NInf = True"
| "isinf _ = False"

fun fneg :: "npfloat \<Rightarrow> npfloat" where
  "fneg (Fin x) = Fin (- x)"
| "fneg PInf = NInf"
| "fneg NInf = PInf"
| "fneg NaN = NaN"

fun fadd :: "npfloat \<Rightarrow> npfloat \<Rightarrow> npfloat" where
  "fadd NaN _ = NaN"
| "fadd _ NaN = NaN"
| "fadd (Fin x) (Fin y) = round64 (x + y)"
| "fadd PInf NInf = NaN"
| "fadd NInf PInf = NaN"
| "fadd PInf _ = PInf"
| "fadd _ PInf = PInf"
| "fadd NInf _ = NInf"
| "fadd _ NInf = NInf"

definition fsub :: "npfloat \<Rightarrow> npfloat \<Rightarrow> npfloat" where
  "fsub a b = fadd a (fneg b)"

fun fmul :: "npfloat \<Rightarrow> npfloat \<Rightarrow> npfloat" where
  "fmul NaN _ = NaN"
| "fmul _ NaN = NaN"
| "fmul (Fin x) (Fin y) = round64 (x * y)"
| "fmul (Fin x) PInf = (if x = 0 then NaN else if 0 < x then PInf else NInf)"
| "fmul (Fin x) NInf = (if x = 0 then NaN else if 0 < x then NInf else PInf)"
| "fmul PInf (Fin y) = (if y = 0 then NaN else if 0 < y then PInf else NInf)"
| "fmul NInf (Fin y) = (if y = 0 then NaN else if 0 < y then NInf else PInf)"
| "fmul PInf PInf = PInf"
| "fmul PInf NInf = NInf"
| "fmul NInf PInf = NInf"
| "fmul NInf NInf = PInf"

fun fdiv :: "npfloat \<Rightarrow> npfloat \<Rightarrow> npfloat" where
  "fdiv NaN _ = NaN"
| "fdiv _ NaN = NaN"
| "fdiv (Fin x) (Fin y) =
     (if y = 0 then (if x = 0 then NaN else if 0 < x then PInf else NInf) else round64 (x / y))"
| "fdiv (Fin x) _ = Fin 0"
| "fdiv PInf (Fin y) = (if 0 \<le> y then PInf else NInf)"
| "fdiv NInf (Fin y) = (if 0 \<le> y then NInf else PInf)"
| "fdiv _ _ = NaN"

fun fabs :: "npfloat \<Rightarrow> npfloat" where
  "fabs (Fin x) = Fin \<bar>x\<bar>"
| "fabs PInf = PInf"
| "fabs NInf = PInf"
| "fabs NaN = NaN"

fun flt :: "npfloat \<Rightarrow> npfloat \<Rightarrow> bool" where
  "flt NaN _ = False"
| "flt _ NaN = False"
| "flt (Fin x) (Fin y) = (x < y)"
| "flt _ NInf = False"
| "flt PInf _ = False"
| "flt _ _ = True"

definition fgt :: "npfloat \<Rightarrow> npfloat \<Rightarrow> bool" where
  "fgt a b = flt b a"

section \<open>Coarse graining of a probability vector\<close>









section \<open>Assembling a Hessian\<close>

text \<open>
  A numpy matrix is a function from row and column to the entry, with its size \<open>m\<close>
  passed along; every loop below runs over \<^verbatim>\<open>range(len(dJ))\<close>, so no index is out of range.
  \<open>setitem\<close> is \<^verbatim>\<open>hess[i,j] = v\<close>; \<open>getitems\<close> and \<open>setitems\<close> are reading and writing through an
  index array (\<^verbatim>\<open>hess[ix]\<close>, \<^verbatim>\<open>hess[ix] = vs\<close>): numpy reads all the right-hand side before it
  writes. \<open>combinations2 m\<close> is \<^verbatim>\<open>combinations(range(m),2)\<close>, \<open>triu_indices m\<close> is
  \<^verbatim>\<open>np.triu_indices_from(hess,k=1)\<close> and \<open>eye_indices m\<close> the true positions of
  \<^verbatim>\<open>np.eye(m)==1\<close>, all in row-major order. \<^verbatim>\<open>pool.map(f, xs)\<close> returns the results in
  the order of \<open>xs\<close> and is \<open>map f xs\<close>.
\<close>

type_synonym matrix = "nat \<Rightarrow> nat \<Rightarrow> npfloat"

definition zeros :: matrix where
  "zeros = (\<lambda>i j. Fin 0)"

definition setitem :: "matrix \<Rightarrow> nat \<times> nat \<Rightarrow> npfloat \<Rightarrow> matrix" where
  "setitem H ij v = H(fst ij := (H (fst ij))(snd ij := v))"

definition getitems :: "matrix \<Rightarrow> (nat \<times> nat) list \<Rightarrow> npfloat list" where
  "getitems H ps = map (\<lambda>ij. H (fst ij) (snd ij)) ps"

definition setitems :: "matrix \<Rightarrow> (nat \<times> nat) list \<Rightarrow> npfloat list \<Rightarrow> matrix" where
  "setitems H ps vs = fold (\<lambda>pv G. setitem G (fst pv) (snd pv)) (zip ps vs) H"

definition combinations2 :: "nat \<Rightarrow> (nat \<times> nat) list" where
  "combinations2 m = concat (map (\<lambda>i. map (\<lambda>j. (i, j)) [Suc i..<m]) [0..<m])"

definition triu_indices :: "nat \<Rightarrow> (nat \<times> nat) list" where
  "triu_indices m = concat (map (\<lambda>i. map (\<lambda>j. (i, j)) [i + 1..<m]) [0..<m])"

definition eye_indices :: "nat \<Rightarrow> (nat \<times> nat) list" where
  "eye_indices m = map (\<lambda>i. (i, i)) [0..<m]"

definition add_transpose :: "matrix \<Rightarrow> matrix" where
  "add_transpose H = (\<lambda>i j. fadd (H i j) (H j i))"

definition any_entry :: "(npfloat \<Rightarrow> bool) \<Rightarrow> matrix \<Rightarrow> nat \<Rightarrow> bool" where
  "any_entry P H m = list_ex (\<lambda>i. list_ex (\<lambda>j. P (H i j)) [0..<m]) [0..<m]"

text \<open>
  The two ways \<^verbatim>\<open>_maj_curvature\<close> (fim.py, lines 665-673) fills the diagonal and the upper
  triangle: by loops, or through the worker pool. \<open>diag\<close> and \<open>off_diag\<close> are the closures of
  the source; they call the external maximum-entropy model and are parameters here.
\<close>

definition fill_serial :: "(nat \<Rightarrow> npfloat) \<Rightarrow> (nat \<times> nat \<Rightarrow> npfloat) \<Rightarrow> nat \<Rightarrow> matrix" where
  "fill_serial diag off_diag m =
     (let hess = fold (\<lambda>i H. setitem H (i, i) (diag i)) [0..<m] zeros
      in fold (\<lambda>ij H. setitem H ij (off_diag ij)) (combinations2 m) hess)"

definition fill_pool :: "(nat \<Rightarrow> npfloat) \<Rightarrow> (nat \<times> nat \<Rightarrow> npfloat) \<Rightarrow> nat \<Rightarrow> matrix" where
  "fill_pool diag off_diag m =
     (let hess = setitems zeros (eye_indices m) (map diag [0..<m])
      in setitems hess (triu_indices m) (map off_diag (combinations2 m)))"

text \<open>
  Lines 675-680: subtract \<^verbatim>\<open>hess[i,i]/2+hess[j,j]/2\<close> from the upper triangle, add the
  transpose (\<^verbatim>\<open>hess += hess.T\<close>), halve the diagonal.
\<close>

definition subtract_linear_terms :: "matrix \<Rightarrow> nat \<Rightarrow> matrix" where
  "subtract_linear_terms hess m =
     setitems hess (triu_indices m)
       (map2 fsub (getitems hess (triu_indices m))
          (map (\<lambda>ij. fadd (fdiv (hess (fst ij) (fst ij)) (Fin 2)) (fdiv (hess (snd ij) (snd ij)) (Fin 2)))
               (combinations2 m)))"

definition halve_diagonal :: "matrix \<Rightarrow> nat \<Rightarrow> matrix" where
  "halve_diagonal hess m =
     setitems hess (eye_indices m) (map (\<lambda>v. fdiv v (Fin 2)) (getitems hess (eye_indices m)))"

definition symmetrize :: "matrix \<Rightarrow> nat \<Rightarrow> matrix" where
  "symmetrize hess m = halve_diagonal (add_transpose (subtract_linear_terms hess m)) m"

text \<open>
  Lines 683-684: \<^verbatim>\<open>assert ~np.isnan(hess).any()\<close> and \<^verbatim>\<open>assert ~np.isinf(hess).any()\<close>.
\<close>

definition check_precision :: "matrix \<Rightarrow> nat \<Rightarrow> error + matrix" where
  "check_precision hess m =
     (if any_entry isnan hess m then Inl AssertionError
      else if any_entry isinf hess m then Inl AssertionError
      else Inr hess)"

text \<open>
  The Hessian of one call of \<^verbatim>\<open>_maj_curvature\<close> at one step size: the pool is used when
  the object has one (\<^verbatim>\<open>'pool' in self.__dict__\<close>).
\<close>

definition maj_hessian :: "(nat \<Rightarrow> npfloat) \<Rightarrow> (nat \<times> nat \<Rightarrow> npfloat) \<Rightarrow> bool \<Rightarrow> nat \<Rightarrow> error + matrix" where
  "maj_hessian diag off_diag has_pool m =
     check_precision
       (symmetrize (if \<not> has_pool then fill_serial diag off_diag m else fill_pool diag off_diag m) m) m"

text \<open>
  \<^verbatim>\<open>_maj_curvature_high_prec\<close> (lines 813-831) chooses by \<^verbatim>\<open>n_cpus\<close> instead, and reads
  \<^verbatim>\<open>self.pool\<close> on the other branch: AttributeError when the object has none.
\<close>

definition maj_hessian_high_prec ::
  "(nat \<Rightarrow> npfloat) \<Rightarrow> (nat \<times> nat \<Rightarrow> npfloat) \<Rightarrow> bool \<Rightarrow> int option \<Rightarrow> nat \<Rightarrow> error + matrix" where
  "maj_hessian_high_prec diag off_diag has_pool n_cpus m =
     (if (case n_cpus of None \<Rightarrow> False | Some c \<Rightarrow> c \<le> 1)
      then check_precision (symmetrize (fill_serial diag off_diag m) m) m
      else if has_pool then check_precision (symmetrize (fill_pool diag off_diag m) m) m
      else Inl AttributeError)"

text \<open>
  The stability check (lines 686-701): the function calls itself once with
  \<^verbatim>\<open>epsdJ/2\<close> and \<^verbatim>\<open>check_stability=False\<close>, so the recursion is unrolled into a second
  assembly. \<open>err\<close> is \<^verbatim>\<open>(hess - hess2)*4/3\<close> and the flag is 1 when some
  \<^verbatim>\<open>abs(err/hess) > rtol\<close>. The result is the triple of \<^verbatim>\<open>full_output=True\<close>; without
  it the source returns the first component. \<open>p_sums_to_one\<close> is the outcome of
  \<^verbatim>\<open>assert np.isclose(p.sum(),1)\<close> (line 608) on the externally computed distribution.
\<close>

definition stability_err :: "matrix \<Rightarrow> matrix \<Rightarrow> matrix" where
  "stability_err hess hess2 = (\<lambda>i j. fdiv (fmul (fsub (hess i j) (hess2 i j)) (Fin 4)) (Fin 3))"

definition exceeds_rtol :: "matrix \<Rightarrow> matrix \<Rightarrow> npfloat \<Rightarrow> nat \<Rightarrow> bool" where
  "exceeds_rtol err hess rtol m =
     any_entry (\<lambda>v. fgt v rtol) (\<lambda>i j. fabs (fdiv (err i j) (hess i j))) m"

definition priv_maj_curvature ::
  "(npfloat \<Rightarrow> nat \<Rightarrow> npfloat) \<Rightarrow> (npfloat \<Rightarrow> nat \<times> nat \<Rightarrow> npfloat) \<Rightarrow> bool \<Rightarrow> bool \<Rightarrow> nat
     \<Rightarrow> npfloat \<Rightarrow> bool \<Rightarrow> npfloat \<Rightarrow> error + (matrix \<times> nat option \<times> matrix option)" where
  "priv_maj_curvature diag off_diag p_sums_to_one has_pool m epsdJ check_stability rtol =
     (if \<not> p_sums_to_one then Inl AssertionError
      else case maj_hessian (diag epsdJ) (off_diag epsdJ) has_pool m of
        Inl e \<Rightarrow> Inl e
      | Inr hess \<Rightarrow>
          if check_stability then
            (case maj_hessian (diag (fdiv epsdJ (Fin 2))) (off_diag (fdiv epsdJ (Fin 2))) has_pool m of
               Inl e \<Rightarrow> Inl e
             | Inr hess2 \<Rightarrow>
                 let err = stability_err hess hess2
                 in Inr (hess, Some (if exceeds_rtol err hess rtol m then 1 else 0), Some err))
          else Inr (hess, None, None))"

definition priv_maj_curvature_high_prec ::
  "(npfloat \<Rightarrow> nat \<Rightarrow> npfloat) \<Rightarrow> (npfloat \<Rightarrow> nat \<times> nat \<Rightarrow> npfloat) \<Rightarrow> bool \<Rightarrow> int option \<Rightarrow> nat
     \<Rightarrow> npfloat \<Rightarrow> bool \<Rightarrow> npfloat \<Rightarrow> error + (matrix \<times> nat option \<times> matrix option)" where
  "priv_maj_curvature_high_prec diag off_diag has_pool n_cpus m epsdJ check_stability rtol =
     (case maj_hessian_high_prec (diag epsdJ) (off_diag epsdJ) has_pool n_cpus m of
        Inl e \<Rightarrow> Inl e
      | Inr hess \<Rightarrow>
          if check_stability then
            (case maj_hessian_high_prec (diag (fdiv epsdJ (Fin 2))) (off_diag (fdiv epsdJ (Fin 2)))
                    has_pool n_cpus m of
               Inl e \<Rightarrow> Inl e
             | Inr hess2 \<Rightarrow>
                 let err = stability_err hess hess2
                 in Inr (hess, Some (if exceeds_rtol err hess rtol m then 1 else 0), Some err))
          else Inr (hess, None, None))"

text \<open>
  \<^verbatim>\<open>_dkl_curvature\<close> (fim.py, lines 401-415; large_fim.py, lines 429-443). With
  \<^verbatim>\<open>n_cpus<=1\<close> the loops write \<^verbatim>\<open>hess[i,j] = hess[j,i] = off_diag((i,j))\<close> and nothing
  more; otherwise the pool fills the upper triangle and the three lines of
  \<open>symmetrize\<close> follow. The stability check calls the public wrapper with
  \<^verbatim>\<open>check_stability=False\<close> and without \<^verbatim>\<open>n_cpus\<close>: the wrapper's loop does not run on the
  flag \<^verbatim>\<open>None\<close> and it returns the Hessian of the pool branch at \<^verbatim>\<open>epsdJ/2\<close>. The norm of
  the error, the third component of the source's result, is left out.
\<close>

definition dkl_hessian ::
  "(nat \<Rightarrow> npfloat) \<Rightarrow> (nat \<times> nat \<Rightarrow> npfloat) \<Rightarrow> bool \<Rightarrow> int option \<Rightarrow> nat \<Rightarrow> error + matrix" where
  "dkl_hessian diag off_diag has_pool n_cpus m =
     (if (case n_cpus of None \<Rightarrow> False | Some c \<Rightarrow> c \<le> 1)
      then
        (let hess = fold (\<lambda>i H. setitem H (i, i) (diag i)) [0..<m] zeros
         in Inr (fold (\<lambda>ij H. setitem (setitem H ij (off_diag ij)) (snd ij, fst ij) (off_diag ij))
                   (combinations2 m) hess))
      else if has_pool then Inr (symmetrize (fill_pool diag off_diag m) m)
      else Inl AttributeError)"

definition priv_dkl_curvature ::
  "(npfloat \<Rightarrow> nat \<Rightarrow> npfloat) \<Rightarrow> (npfloat \<Rightarrow> nat \<times> nat \<Rightarrow> npfloat) \<Rightarrow> bool \<Rightarrow> int option \<Rightarrow> nat
     \<Rightarrow> npfloat \<Rightarrow> bool \<Rightarrow> npfloat \<Rightarrow> error + (matrix \<times> nat option)" where
  "priv_dkl_curvature diag off_diag has_pool n_cpus m epsdJ check_stability rtol =
     (case dkl_hessian (diag epsdJ) (off_diag epsdJ) has_pool n_cpus m of
        Inl e \<Rightarrow> Inl e
      | Inr hess \<Rightarrow>
          if check_stability then
            (case dkl_hessian (diag (fdiv epsdJ (Fin 2))) (off_diag (fdiv epsdJ (Fin 2))) has_pool None m of
               Inl e \<Rightarrow> Inl e
             | Inr hess2 \<Rightarrow>
                 let err = (\<lambda>i j. fsub (hess2 i j) (hess i j))
                 in Inr (hess, Some (if exceeds_rtol err hess rtol m then 1 else 0)))
          else Inr (hess, None))"

section \<open>Arrays, errors and loops\<close>

text \<open>
  \<open>ebind\<close> sequences two steps that may raise and \<open>efold\<close> is a for loop whose body may
  raise. \<open>getitem\<close> and \<open>putitem\<close> are \<^verbatim>\<open>xs[ix]\<close> and \<^verbatim>\<open>xs[ix] = v\<close> on a one-dimensional
  array: a negative index counts from the end, an index out of range raises IndexError.
  \<open>delete\<close> is the helper of fim.py (lines 2121-2129).
\<close>

definition ebind :: "error + 'a \<Rightarrow> ('a \<Rightarrow> error + 'b) \<Rightarrow> error + 'b" where
  "ebind m f = (case m of Inl e \<Rightarrow> Inl e | Inr x \<Rightarrow> f x)"

fun efold :: "('a \<Rightarrow> 's \<Rightarrow> error + 's) \<Rightarrow> 'a list \<Rightarrow> 's \<Rightarrow> error + 's" where
  "efold f [] s = Inr s"
| "efold f (x # xs) s = ebind (f x s) (efold f xs)"

definition getitem :: "'a list \<Rightarrow> int \<Rightarrow> error + 'a" where
  "getitem xs ix =
     (let n = int (length xs); j = (if ix < 0 then n + ix else ix)
      in if 0 \<le> j \<and> j < n then Inr (xs ! nat j) else Inl IndexError)"

definition putitem :: "'a list \<Rightarrow> int \<Rightarrow> 'a \<Rightarrow> error + 'a list" where
  "putitem xs ix v =
     (let n = int (length xs); j = (if ix < 0 then n + ix else ix)
      in if 0 \<le> j \<and> j < n then Inr (xs[nat j := v]) else Inl IndexError)"

definition delete :: "'a list \<Rightarrow> int \<Rightarrow> 'a list" where
  "delete X i = map (\<lambda>j. X ! j) (filter (\<lambda>j. i \<noteq> int j) [0..<length X])"

section \<open>The combinatorial index\<close>

text \<open>
  \<^verbatim>\<open>factorial\<close>, \<^verbatim>\<open>binom\<close>, \<^verbatim>\<open>jit_all\<close> and \<^verbatim>\<open>unravel_index\<close> of fim.py (lines 2131-2180; the
  same text is in large_fim.py), compiled by numba. \<^verbatim>\<open>factorial\<close> is a while loop over the
  float accumulator \<^verbatim>\<open>f = 1.\<close>: every \<^verbatim>\<open>f *= x\<close> is a rounded float multiplication by the
  integer \<open>x\<close>, and the loop is left at once for \<open>x \<le> 0\<close>. \<^verbatim>\<open>binom\<close> is two rounded float
  divisions. \<^verbatim>\<open>int(...)\<close> truncates towards zero; on an infinity or NaN Python raises, as the
  model does (the compiled cast is unspecified there). Integers are unbounded.
\<close>

function factorial_loop :: "int \<Rightarrow> npfloat \<Rightarrow> npfloat" where
  "factorial_loop x f = (if x > 0 then factorial_loop (x - 1) (fmul f (Fin (of_int x))) else f)"
  by pat_completeness auto
termination
  by (relation "measure (\<lambda>(x, f). nat x)") auto

declare factorial_loop.simps [simp del]

definition factorial :: "int \<Rightarrow> npfloat" where
  "factorial x = factorial_loop x (Fin 1)"

definition binom :: "int \<Rightarrow> int \<Rightarrow> npfloat" where
  "binom n k = fdiv (fdiv (factorial n) (factorial (n - k))) (factorial k)"

fun py_int :: "npfloat \<Rightarrow> error + int" where
  "py_int (Fin x) = Inr (if 0 \<le> x then \<lfloor>x\<rfloor> else \<lceil>x\<rceil>)"
| "py_int NaN = Inl ValueError"
| "py_int _ = Inl OverflowError"

fun jit_all :: "bool list \<Rightarrow> bool" where
  "jit_all [] = True"
| "jit_all (x # xs) = (if \<not> x then False else jit_all xs)"

text \<open>\<^verbatim>\<open>range(a, b)\<close> over Python integers.\<close>

definition py_range :: "int \<Rightarrow> int \<Rightarrow> int list" where
  "py_range a b = [a..b - 1]"

text \<open>
  \<open>sum_int_binom n r is\<close> is \<^verbatim>\<open>np.sum(np.array([int(binom(n-1-i, r)) for i in is]))\<close>, an
  integer sum.
\<close>

definition sum_int_binom :: "int \<Rightarrow> int \<Rightarrow> int list \<Rightarrow> error + int" where
  "sum_int_binom n r is =
     efold (\<lambda>i acc. ebind (py_int (binom (n - 1 - i) r)) (\<lambda>b. Inr (acc + b))) is 0"

text \<open>
  \<^verbatim>\<open>unravel_index(ijk, n)\<close>: a tuple of length one raises, the two assertions follow, and a
  tuple of length zero fails at \<^verbatim>\<open>ijk[0]\<close>. The loop over \<open>d\<close> is a fold over
  \<^verbatim>\<open>range(1, len(ijk)-1)\<close>; \<^verbatim>\<open>ijk[-1]\<close> and \<^verbatim>\<open>ijk[-2]\<close> are the last two entries.
\<close>

definition unravel_index :: "int list \<Rightarrow> int \<Rightarrow> error + int" where
  "unravel_index ijk n =
     (if length ijk = 1 then Inl RaisedException
      else if \<not> jit_all (map (\<lambda>i. ijk ! i < ijk ! (i + 1)) [0..<length ijk - 1]) then Inl AssertionError
      else if \<not> jit_all (map (\<lambda>i. i < n) ijk) then Inl AssertionError
      else if ijk = [] then Inl IndexError
      else
        (let k = length ijk in
         ebind (sum_int_binom n (int k - 1) (py_range 0 (ijk ! 0))) (\<lambda>ix.
         ebind (efold (\<lambda>d ix.
                  if ijk ! d - ijk ! (d - 1) > 1
                  then ebind (sum_int_binom n (int k - int d - 1) (py_range (ijk ! (d - 1) + 1) (ijk ! d)))
                         (\<lambda>s. Inr (ix + s))
                  else Inr ix) [1..<k - 1] ix) (\<lambda>ix.
         Inr (ix + ijk ! (k - 1) - ijk ! (k - 2) - 1)))))"

text \<open>
  \<^verbatim>\<open>itertools.combinations(xs, k)\<close>: the sublists of length \<open>k\<close> in lexicographic order of
  their positions. On \<^verbatim>\<open>range(n)\<close> these are the strictly increasing \<open>k\<close>-tuples over
  \<open>[0,n)\<close> in lexicographic order, the enumeration the flattened arrays follow.
\<close>

fun combinations :: "'a list \<Rightarrow> nat \<Rightarrow> 'a list list" where
  "combinations xs 0 = [[]]"
| "combinations [] (Suc k) = []"
| "combinations (x # xs) (Suc k) = map ((#) x) (combinations xs k) @ combinations xs (Suc k)"

section \<open>Perturbed observables\<close>

text \<open>
  The position of the pair \<open>{i, j}\<close> in the pairwise table, as every loop of the source
  computes it: \<^verbatim>\<open>unravel_index((i,j),n)\<close> if \<open>i < j\<close>, else \<^verbatim>\<open>unravel_index((j,i),n)\<close>.
\<close>

definition pair_index :: "int \<Rightarrow> int \<Rightarrow> int \<Rightarrow> error + int" where
  "pair_index i j n = (if i < j then unravel_index [i, j] n else unravel_index [j, i] n)"

text \<open>
  \<^verbatim>\<open>jit_observables_after_perturbation_plus\<close> and \<^verbatim>\<open>..._minus\<close> (fim.py, lines 2033-2071): the
  arrays are updated in place; the model returns them. \<open>osisj\<close> is the copy taken on entry.
\<close>

definition jit_observables_after_perturbation_plus ::
  "int \<Rightarrow> npfloat list \<Rightarrow> npfloat list \<Rightarrow> int \<Rightarrow> int \<Rightarrow> npfloat \<Rightarrow> error + (npfloat list \<times> npfloat list)" where
  "jit_observables_after_perturbation_plus n si sisj i a eps =
     (let osisj = sisj in
      ebind (getitem si i) (\<lambda>si_i.
      ebind (getitem si a) (\<lambda>si_a.
      ebind (putitem si i (fsub si_i (fmul eps (fsub si_i si_a)))) (\<lambda>si'.
      ebind (efold (\<lambda>j sisj.
               ebind (pair_index i j n) (\<lambda>ijix.
                 if j = a then
                   ebind (getitem sisj ijix) (\<lambda>v.
                     putitem sisj ijix (fsub v (fmul eps (fsub v (Fin 1)))))
                 else
                   ebind (pair_index j a n) (\<lambda>jaix.
                   ebind (getitem sisj ijix) (\<lambda>v.
                   ebind (getitem osisj jaix) (\<lambda>w.
                     putitem sisj ijix (fsub v (fmul eps (fsub v w))))))))
             (delete (py_range 0 n) i) sisj) (\<lambda>sisj'.
      Inr (si', sisj'))))))"

definition jit_observables_after_perturbation_minus ::
  "int \<Rightarrow> npfloat list \<Rightarrow> npfloat list \<Rightarrow> int \<Rightarrow> int \<Rightarrow> npfloat \<Rightarrow> error + (npfloat list \<times> npfloat list)" where
  "jit_observables_after_perturbation_minus n si sisj i a eps =
     (let osisj = sisj in
      ebind (getitem si i) (\<lambda>si_i.
      ebind (getitem si a) (\<lambda>si_a.
      ebind (putitem si i (fsub si_i (fmul eps (fadd si_i si_a)))) (\<lambda>si'.
      ebind (efold (\<lambda>j sisj.
               ebind (pair_index i j n) (\<lambda>ijix.
                 if j = a then
                   ebind (getitem sisj ijix) (\<lambda>v.
                     putitem sisj ijix (fsub v (fmul eps (fadd v (Fin 1)))))
                 else
                   ebind (pair_index j a n) (\<lambda>jaix.
                   ebind (getitem sisj ijix) (\<lambda>v.
                   ebind (getitem osisj jaix) (\<lambda>w.
                     putitem sisj ijix (fsub v (fmul eps (fadd v w))))))))
             (delete (py_range 0 n) i) sisj) (\<lambda>sisj'.
      Inr (si', sisj'))))))"

section \<open>Constructors\<close>




section \<open>Properties\<close>

subsection \<open>Rounding to binary64\<close>

lemma powi_nat: "0 \<le> b \<Longrightarrow> (2::real) powi b = 2 ^ nat b"
  by (simp add: power_int_def)

lemma expo_bounds:
  assumes "x \<noteq> 0"
  shows "2 powi (expo x) \<le> \<bar>x\<bar> \<and> \<bar>x\<bar> < 2 powi (expo x + 1)"
proof (cases "1 \<le> \<bar>x\<bar>")
  case True
  define n where "n = \<lfloor>\<bar>x\<bar>\<rfloor>"
  have n1: "1 \<le> n" using True by (simp add: n_def le_floor_iff)
  have e: "expo x = bitlen n - 1" using True by (simp add: expo_def n_def)
  from bitlen_bounds [of n] n1 have b: "2 ^ nat (bitlen n - 1) \<le> n" "n < 2 ^ nat (bitlen n)"
    by auto
  have bl: "1 \<le> bitlen n"
    using n1 bitlen_eq_zero_iff [of n] bitlen_nonneg [of n] by linarith
  have "real_of_int (2 ^ nat (bitlen n - 1)) \<le> real_of_int n"
    using b(1) by (simp only: of_int_le_iff)
  then have r1: "(2::real) ^ nat (bitlen n - 1) \<le> real_of_int n"
    by (simp only: of_int_power of_int_numeral)
  have r2: "real_of_int n \<le> \<bar>x\<bar>" by (simp add: n_def)
  have q1: "(2::real) powi (expo x) = 2 ^ nat (bitlen n - 1)"
    using bl by (simp add: e powi_nat)
  have lo: "2 powi (expo x) \<le> \<bar>x\<bar>"
    unfolding q1 using r1 r2 by (rule order_trans)
  have "n + 1 \<le> 2 ^ nat (bitlen n)" using b(2) by simp
  then have "real_of_int (n + 1) \<le> real_of_int (2 ^ nat (bitlen n))"
    by (simp only: of_int_le_iff)
  then have r3: "real_of_int n + 1 \<le> (2::real) ^ nat (bitlen n)"
    by (simp only: of_int_power of_int_numeral of_int_add of_int_1)
  have r4: "\<bar>x\<bar> < real_of_int n + 1" by (simp add: n_def)
  have q2: "(2::real) powi (expo x + 1) = 2 ^ nat (bitlen n)"
    using bl by (simp add: e powi_nat)
  have "\<bar>x\<bar> < 2 powi (expo x + 1)"
    unfolding q2 using r4 r3 by (rule less_le_trans)
  with lo show ?thesis by simp
next
  case False
  define y where "y = 1 / \<bar>x\<bar>"
  define c where "c = \<lceil>y\<rceil>"
  have xp: "0 < \<bar>x\<bar>" using assms by simp
  have y1: "1 < y" using False xp by (simp add: y_def)
  have c2: "2 \<le> c" using y1 unfolding c_def by linarith
  have e: "expo x = - bitlen (c - 1)" using False by (simp add: expo_def c_def y_def)
  from bitlen_bounds [of "c - 1"] c2
  have b: "2 ^ nat (bitlen (c - 1) - 1) \<le> c - 1" "c - 1 < 2 ^ nat (bitlen (c - 1))"
    by auto
  have bl: "1 \<le> bitlen (c - 1)"
    using c2 bitlen_eq_zero_iff [of "c - 1"] bitlen_nonneg [of "c - 1"] by linarith
  define B where "B = nat (bitlen (c - 1))"
  have B1: "1 \<le> B" and Bb: "bitlen (c - 1) = int B" using bl by (simp_all add: B_def)
  have nb: "nat (bitlen (c - 1) - 1) = B - 1" by (simp add: B_def)
  have "real_of_int (2 ^ (B - 1)) \<le> real_of_int (c - 1)"
    using b(1) unfolding nb by (simp only: of_int_le_iff)
  then have l1: "(2::real) ^ (B - 1) \<le> real_of_int c - 1"
    by (simp only: of_int_power of_int_numeral of_int_diff of_int_1)
  have "real_of_int c - 1 < y" unfolding c_def by linarith
  with l1 have ylo: "(2::real) ^ (B - 1) < y" by (rule le_less_trans)
  have "c \<le> 2 ^ B" using b(2) unfolding B_def by simp
  then have "real_of_int c \<le> real_of_int (2 ^ B)" by (simp only: of_int_le_iff)
  then have r5: "real_of_int c \<le> (2::real) ^ B"
    by (simp only: of_int_power of_int_numeral)
  have r6: "y \<le> real_of_int c" unfolding c_def by linarith
  have yhi: "y \<le> 2 ^ B" using r6 r5 by (rule order_trans)
  have xy: "\<bar>x\<bar> = 1 / y" by (simp add: y_def)
  have p1: "(2::real) powi (- int B) = 1 / 2 ^ B"
    by (simp add: power_int_def field_simps)
  have p2: "(2::real) powi (- int B + 1) = 1 / 2 ^ (B - 1)"
  proof -
    have "- int B + 1 = - int (B - 1)" using B1 by simp
    then have "(2::real) powi (- int B + 1) = 2 powi (- int (B - 1))" by (simp only:)
    also have "\<dots> = 1 / 2 ^ (B - 1)"
      by (simp only: power_int_minus power_int_of_nat inverse_eq_divide)
    finally show ?thesis .
  qed
  have "1 / 2 ^ B \<le> 1 / y" using yhi y1 by (simp add: frac_le)
  moreover have "1 / y < 1 / 2 ^ (B - 1)" using ylo by (simp add: frac_less2)
  ultimately show ?thesis unfolding e Bb p1 p2 xy by simp
qed

lemma expo_eqI:
  assumes "2 powi e \<le> \<bar>x\<bar>" and "\<bar>x\<bar> < 2 powi (e + 1)"
  shows "expo x = e"
proof -
  have "0 < (2::real) powi e" by (rule zero_less_power_int) simp
  have "x \<noteq> 0"
  proof
    assume "x = 0"
    with assms(1) have "(2::real) powi e \<le> 0" by simp
    with \<open>0 < (2::real) powi e\<close> show False by linarith
  qed
  from expo_bounds [OF this] have b: "2 powi (expo x) \<le> \<bar>x\<bar>" "\<bar>x\<bar> < 2 powi (expo x + 1)"
    by simp_all
  have "\<not> expo x < e"
  proof
    assume "expo x < e"
    then have "expo x + 1 \<le> e" by simp
    then have "(2::real) powi (expo x + 1) \<le> 2 powi e" by (intro power_int_increasing) simp_all
    with b(2) assms(1) show False by linarith
  qed
  moreover have "\<not> e < expo x"
  proof
    assume "e < expo x"
    then have "e + 1 \<le> expo x" by simp
    then have "(2::real) powi (e + 1) \<le> 2 powi (expo x)" by (intro power_int_increasing) simp_all
    with b(1) assms(2) show False by linarith
  qed
  ultimately show ?thesis by simp
qed

lemma rhe_of_int: "round_half_even (of_int k) = k"
  by (simp add: round_half_even_def)

lemma rhe_near: "\<bar>of_int (round_half_even q) - q\<bar> \<le> 1 / 2"
  unfolding round_half_even_def Let_def by (auto; linarith)

lemma rhe_mono:
  assumes "q \<le> r"
  shows "round_half_even q \<le> round_half_even r"
proof (cases "\<lfloor>q\<rfloor> = \<lfloor>r\<rfloor>")
  case True
  then show ?thesis using assms unfolding round_half_even_def Let_def by auto
next
  case False
  then have "\<lfloor>q\<rfloor> < \<lfloor>r\<rfloor>" using assms floor_mono [of q r] by linarith
  then have "\<lfloor>q\<rfloor> + 1 \<le> \<lfloor>r\<rfloor>" by simp
  moreover have "round_half_even q \<le> \<lfloor>q\<rfloor> + 1" unfolding round_half_even_def Let_def by auto
  moreover have "\<lfloor>r\<rfloor> \<le> round_half_even r" unfolding round_half_even_def Let_def by auto
  ultimately show ?thesis by linarith
qed

lemma rhe_ge: "of_int a \<le> q \<Longrightarrow> a \<le> round_half_even q"
  using rhe_mono [of "of_int a" q] by (simp add: rhe_of_int)

lemma rhe_le: "q \<le> of_int b \<Longrightarrow> round_half_even q \<le> b"
  using rhe_mono [of q "of_int b"] by (simp add: rhe_of_int)

lemma ulp_pos: "0 < ulp x"
  unfolding ulp_def by (rule zero_less_power_int) simp

lemma powi_Suc: "(2::real) powi (a + 1) = 2 * 2 powi a"
  by (simp add: power_int_add)

lemma powi_shift: "(2::real) powi (a - int n) * 2 ^ n = 2 powi a"
proof -
  have "(2::real) powi (a - int n) * 2 powi (int n) = 2 powi (a - int n + int n)"
    by (subst power_int_add) simp_all
  then show ?thesis by simp
qed

lemma round64_grid:
  assumes "x \<noteq> 0" and "x = of_int k * ulp x"
  shows "round64 x = (if 2 ^ 1024 \<le> \<bar>x\<bar> then (if 0 < x then PInf else NInf) else Fin x)"
proof -
  have u: "ulp x \<noteq> 0" using ulp_pos [of x] by simp
  have "x / ulp x = of_int k * ulp x / ulp x" using assms(2) by simp
  also have "\<dots> = of_int k" using u by simp
  finally have "round_half_even (x / ulp x) = k" by (simp only: rhe_of_int)
  then have "of_int (round_half_even (x / ulp x)) * ulp x = x"
    using assms(2) by simp
  then show ?thesis using assms(1) unfolding round64_def Let_def by (simp only: if_False)
qed

lemma scaled_ge:
  fixes x u :: real
  assumes "0 < u" and "u * of_int a \<le> x"
  shows "a \<le> round_half_even (x / u)"
proof -
  have "of_int a \<le> x / u" using assms by (simp add: pos_le_divide_eq mult.commute)
  then show ?thesis by (rule rhe_ge)
qed

lemma scaled_le:
  fixes x u :: real
  assumes "0 < u" and "x \<le> u * of_int b"
  shows "round_half_even (x / u) \<le> b"
proof -
  have "x / u \<le> of_int b" using assms by (simp add: pos_divide_le_eq mult.commute)
  then show ?thesis by (rule rhe_le)
qed

lemma rounded_on_grid:
  assumes x0: "x \<noteq> 0"
    and y: "y = of_int (round_half_even (x / ulp x)) * ulp x"
    and y0: "y \<noteq> 0"
  shows "\<exists>k. y = of_int k * ulp y"
proof -
  define E where "E = expo x"
  define e where "e = max E (- 1022)"
  define u where "u = (2::real) powi (e - 52)"
  define k where "k = round_half_even (x / u)"
  define M :: int where "M = 2 ^ 52"
  have ux: "ulp x = u" by (simp add: ulp_def u_def e_def E_def)
  have up: "0 < u" using ulp_pos [of x] ux by simp
  have yk: "y = of_int k * u" using y by (simp add: ux k_def)
  from expo_bounds [OF x0] have xb: "2 powi E \<le> \<bar>x\<bar>" "\<bar>x\<bar> < 2 powi (E + 1)"
    by (simp_all add: E_def)
  have "(2::real) powi (E + 1) \<le> 2 powi (e + 1)"
    by (intro power_int_increasing) (simp_all add: e_def)
  with xb(2) have xhi: "\<bar>x\<bar> < 2 powi (e + 1)" by linarith
  have "u * (2::real) ^ 52 = 2 powi e" using powi_shift [of e 52] by (simp add: u_def)
  then have u52: "u * of_int M = 2 powi e" by (simp add: M_def)
  then have u53: "u * of_int (2 * M) = 2 powi (e + 1)" by (simp add: powi_Suc)
  have um: "u * of_int (- (2 * M)) = - (2 powi (e + 1))" "u * of_int (- M) = - (2 powi e)"
    using u52 u53 by simp_all
  have "x \<le> 2 powi (e + 1)" using xhi by linarith
  then have "x \<le> u * of_int (2 * M)" by (simp only: u53)
  then have khi: "k \<le> 2 * M"
    unfolding k_def by (rule scaled_le [OF up])
  have "- (2 powi (e + 1)) \<le> x" using xhi by linarith
  then have "u * of_int (- (2 * M)) \<le> x" by (simp only: um)
  then have klo: "- (2 * M) \<le> k"
    unfolding k_def by (rule scaled_ge [OF up])
  have yabs: "\<bar>y\<bar> = u * of_int \<bar>k\<bar>" using up by (simp add: yk abs_mult)
  show ?thesis
  proof (cases "- 1022 \<le> E")
    case True
    then have eE: "e = E" by (simp add: e_def)
    have k52: "M \<le> \<bar>k\<bar>"
    proof (cases "0 < x")
      case True
      then have "2 powi e \<le> x" using xb(1) eE by simp
      then have "u * of_int M \<le> x" by (simp only: u52)
      then have "M \<le> k" unfolding k_def by (rule scaled_ge [OF up])
      then show ?thesis by simp
    next
      case False
      then have "x \<le> - (2 powi e)" using xb(1) eE x0 by simp
      then have "x \<le> u * of_int (- M)" by (simp only: um)
      then have "k \<le> - M" unfolding k_def by (rule scaled_le [OF up])
      then show ?thesis by simp
    qed
    have ylo: "2 powi e \<le> \<bar>y\<bar>"
    proof -
      have "real_of_int M \<le> real_of_int \<bar>k\<bar>" using k52 by (simp only: of_int_le_iff)
      then have "u * of_int M \<le> u * of_int \<bar>k\<bar>" using up by (simp only: mult_le_cancel_left_pos)
      then show ?thesis by (simp only: yabs u52)
    qed
    show ?thesis
    proof (cases "\<bar>k\<bar> = 2 * M")
      case True
      then have ya: "\<bar>y\<bar> = 2 powi (e + 1)" by (simp only: yabs u53)
      have "\<bar>y\<bar> < 2 powi (e + 1 + 1)"
        unfolding ya by (intro power_int_strict_increasing) simp_all
      with ya have "expo y = e + 1" by (intro expo_eqI) simp_all
      moreover have "max (e + 1) (- 1022) - 52 = (e - 52) + 1"
        using \<open>- 1022 \<le> E\<close> eE by simp
      ultimately have uy: "ulp y = 2 * u"
        by (simp only: ulp_def u_def powi_Suc)
      from True consider "k = 2 * M" | "k = - (2 * M)" by linarith
      then show ?thesis
      proof cases
        case 1
        have "y = of_int M * ulp y" unfolding uy by (simp add: yk 1)
        then show ?thesis by blast
      next
        case 2
        have "y = of_int (- M) * ulp y" unfolding uy by (simp add: yk 2)
        then show ?thesis by blast
      qed
    next
      case False
      then have "\<bar>k\<bar> < 2 * M" using khi klo by linarith
      then have "real_of_int \<bar>k\<bar> < real_of_int (2 * M)" by (simp only: of_int_less_iff)
      then have "u * of_int \<bar>k\<bar> < u * of_int (2 * M)" using up by (simp only: mult_less_cancel_left_pos)
      then have "\<bar>y\<bar> < 2 powi (e + 1)" by (simp only: yabs u53)
      with ylo have "expo y = e" by (intro expo_eqI)
      then have uy: "ulp y = u" using \<open>- 1022 \<le> E\<close> eE by (simp add: ulp_def u_def max_def)
      have "y = of_int k * ulp y" unfolding uy by (rule yk)
      then show ?thesis by blast
    qed
  next
    case False
    then have e: "e = - 1022" by (simp add: e_def)
    have "(2::real) powi (E + 1) \<le> 2 powi e"
      using False by (intro power_int_increasing) (simp_all add: e)
    with xb(2) have xs: "\<bar>x\<bar> < 2 powi e" by linarith
    have "x \<le> 2 powi e" using xs by linarith
    then have "x \<le> u * of_int M" by (simp only: u52)
    then have k1: "k \<le> M"
      unfolding k_def by (rule scaled_le [OF up])
    have "- (2 powi e) \<le> x" using xs by linarith
    then have "u * of_int (- M) \<le> x" by (simp only: um)
    then have k2: "- M \<le> k"
      unfolding k_def by (rule scaled_ge [OF up])
    have "\<bar>k\<bar> \<le> M" using k1 k2 by linarith
    then have "real_of_int \<bar>k\<bar> \<le> real_of_int M" by (simp only: of_int_le_iff)
    then have "u * of_int \<bar>k\<bar> \<le> u * of_int M" using up by (simp only: mult_le_cancel_left_pos)
    then have yle: "\<bar>y\<bar> \<le> 2 powi e" by (simp only: yabs u52)
    from expo_bounds [OF y0] have "2 powi (expo y) \<le> \<bar>y\<bar>" by simp
    with yle have le: "(2::real) powi (expo y) \<le> 2 powi e" by linarith
    have "expo y \<le> e"
    proof (rule ccontr)
      assume "\<not> expo y \<le> e"
      then have "e < expo y" by simp
      then have "(2::real) powi e < 2 powi (expo y)" by (intro power_int_strict_increasing) simp_all
      with le show False by linarith
    qed
    then have uy: "ulp y = u" by (simp add: ulp_def u_def e max_def)
    have "y = of_int k * ulp y" unfolding uy by (rule yk)
    then show ?thesis by blast
  qed
qed

lemma round64_idem:
  assumes "round64 x = Fin y"
  shows "round64 y = Fin y"
proof (cases "x = 0 \<or> y = 0")
  case True
  then show ?thesis using assms by (auto simp: round64_def)
next
  case False
  then have x0: "x \<noteq> 0" and y0: "y \<noteq> 0" by simp_all
  from assms x0 have y: "y = of_int (round_half_even (x / ulp x)) * ulp x" and fin: "\<not> 2 ^ 1024 \<le> \<bar>y\<bar>"
    unfolding round64_def Let_def by (auto split: if_splits)
  from rounded_on_grid [OF x0 y y0] obtain k where "y = of_int k * ulp y" by blast
  from round64_grid [OF y0 this] fin show ?thesis by (simp only: if_False)
qed



text \<open>
  The rewrite rules that evaluate \<open>round64\<close> on a numeral: the exponent is computed bit by
  bit.
\<close>

lemma bitlen_pos: "0 < x \<Longrightarrow> bitlen x = bitlen (x div 2) + 1"
  by (subst compute_bitlen) simp

lemmas round64_eval =
  round64_def ulp_def expo_def bitlen_pos round_half_even_def Let_def power_int_minus

subsection \<open>Coarse graining and total mass\<close>









subsection \<open>The assembled Hessian\<close>

lemma triu_is_comb: "triu_indices m = combinations2 m"
  by (simp add: triu_indices_def combinations2_def)

lemma set_combinations2: "set (combinations2 m) = {(i, j). i < j \<and> j < m}"
  by (fastforce simp: combinations2_def)

lemma set_eye: "set (eye_indices m) = {(i, j). i = j \<and> i < m}"
  by (auto simp: eye_indices_def)

lemma setitem_apply: "setitem H p v a b = (if (a, b) = p then v else H a b)"
  by (cases p) (simp add: setitem_def)

lemma fold_setitem_fun:
  "fold (\<lambda>p G. setitem G p (f p)) ps H a b = (if (a, b) \<in> set ps then f (a, b) else H a b)"
proof (induction ps arbitrary: H)
  case Nil
  show ?case by simp
next
  case (Cons p ps)
  have "fold (\<lambda>p G. setitem G p (f p)) (p # ps) H a b
      = fold (\<lambda>p G. setitem G p (f p)) ps (setitem H p (f p)) a b"
    by simp
  also have "\<dots> = (if (a, b) \<in> set ps then f (a, b) else setitem H p (f p) a b)"
    by (rule Cons.IH)
  also have "\<dots> = (if (a, b) \<in> set (p # ps) then f (a, b) else H a b)"
    by (auto simp: setitem_apply)
  finally show ?case .
qed

lemma zip_map_self: "zip ps (map f ps) = map (\<lambda>p. (p, f p)) ps"
  by (induction ps) simp_all

lemma setitems_map: "setitems H ps (map f ps) a b = (if (a, b) \<in> set ps then f (a, b) else H a b)"
proof -
  have "setitems H ps (map f ps) = fold (\<lambda>p G. setitem G p (f p)) ps H"
    by (simp add: setitems_def zip_map_self fold_map comp_def)
  then show ?thesis by (simp add: fold_setitem_fun)
qed

lemma map2_same: "map2 h (map f ps) (map g ps) = map (\<lambda>p. h (f p) (g p)) ps"
  by (induction ps) simp_all

lemma fold_diag_entries:
  "fold (\<lambda>i H. setitem H (i, i) (d i)) is H a b = (if a = b \<and> a \<in> set is then d a else H a b)"
proof (induction "is" arbitrary: H)
  case Nil
  show ?case by simp
next
  case (Cons i "is")
  have "fold (\<lambda>i H. setitem H (i, i) (d i)) (i # is) H a b
      = fold (\<lambda>i H. setitem H (i, i) (d i)) is (setitem H (i, i) (d i)) a b"
    by simp
  also have "\<dots> = (if a = b \<and> a \<in> set is then d a else setitem H (i, i) (d i) a b)"
    by (rule Cons.IH)
  also have "\<dots> = (if a = b \<and> a \<in> set (i # is) then d a else H a b)"
    by (auto simp: setitem_apply)
  finally show ?case .
qed

lemma fill_serial_entry:
  "fill_serial d od m a b =
     (if a < b \<and> b < m then od (a, b) else if a = b \<and> a < m then d a else Fin 0)"
  by (auto simp: fill_serial_def Let_def fold_setitem_fun fold_diag_entries set_combinations2 zeros_def)

lemma eye_map: "map d [0..<m] = map (\<lambda>p. d (fst p)) (eye_indices m)"
  by (simp add: eye_indices_def comp_def)

lemma fill_pool_entry:
  "fill_pool d od m a b =
     (if a < b \<and> b < m then od (a, b) else if a = b \<and> a < m then d a else Fin 0)"
  by (auto simp: fill_pool_def Let_def triu_is_comb eye_map setitems_map set_combinations2 set_eye zeros_def)

lemma fill_pool_serial: "fill_pool d od m = fill_serial d od m"
  by (intro ext) (simp add: fill_pool_entry fill_serial_entry)

lemma subtract_entry:
  "subtract_linear_terms H m a b =
     (if a < b \<and> b < m then fsub (H a b) (fadd (fdiv (H a a) (Fin 2)) (fdiv (H b b) (Fin 2))) else H a b)"
  by (auto simp: subtract_linear_terms_def triu_is_comb getitems_def map2_same setitems_map set_combinations2)

lemma halve_entry:
  "halve_diagonal H m a b = (if a = b \<and> a < m then fdiv (H a a) (Fin 2) else H a b)"
  by (auto simp: halve_diagonal_def getitems_def comp_def setitems_map set_eye)

lemma fadd_zero_right: "isdouble x \<Longrightarrow> fadd x (Fin 0) = x"
  by (cases x) (simp_all add: isdouble_def)

lemma fadd_zero_left: "isdouble x \<Longrightarrow> fadd (Fin 0) x = x"
  by (cases x) (simp_all add: isdouble_def)

lemma isdouble_round64: "isdouble (round64 x)"
  by (cases "round64 x") (simp_all add: isdouble_def round64_idem)

lemma isdouble_fadd: "isdouble (fadd a b)"
  by (cases a; cases b) (simp_all add: isdouble_round64, simp_all add: isdouble_def)

lemma isdouble_fsub: "isdouble (fsub a b)"
  by (simp add: fsub_def isdouble_fadd)

lemma round64_0: "round64 0 = Fin 0"
  by (simp add: round64_def)


lemma fhalf_special:
  "isnan d \<or> isinf d \<Longrightarrow> isnan (fdiv (fadd d d) (Fin 2)) \<or> isinf (fdiv (fadd d d) (Fin 2))"
  by (cases d) simp_all

lemma symmetrize_fill_entry:
  "symmetrize (fill_serial d od m) m a b =
     (if a < b \<and> b < m then fsub (od (a, b)) (fadd (fdiv (d a) (Fin 2)) (fdiv (d b) (Fin 2)))
      else if b < a \<and> a < m then fsub (od (b, a)) (fadd (fdiv (d b) (Fin 2)) (fdiv (d a) (Fin 2)))
      else if a = b \<and> a < m then fdiv (fadd (d a) (d a)) (Fin 2)
      else Fin 0)"
  by (auto simp: symmetrize_def halve_entry add_transpose_def subtract_entry fill_serial_entry
      fadd_zero_right [OF isdouble_fsub] fadd_zero_left [OF isdouble_fsub] round64_0)


lemma symmetrize_pool_entry:
  "symmetrize (fill_pool d od m) m = symmetrize (fill_serial d od m) m"
  by (simp add: fill_pool_serial)

lemma any_entry_iff: "any_entry P H m \<longleftrightarrow> (\<exists>i<m. \<exists>j<m. P (H i j))"
  unfolding any_entry_def list_ex_iff by (simp add: Bex_def)

lemma check_precision_Inr:
  "check_precision hess m = Inr H \<Longrightarrow> H = hess \<and> (\<forall>i<m. \<forall>j<m. \<not> isnan (H i j) \<and> \<not> isinf (H i j))"
  by (auto simp: check_precision_def any_entry_iff split: if_splits)

lemma maj_hessian_Inr:
  "maj_hessian d od pool m = Inr H \<Longrightarrow>
     H = symmetrize (fill_serial d od m) m \<and> (\<forall>i<m. \<forall>j<m. \<not> isnan (H i j) \<and> \<not> isinf (H i j))"
  unfolding maj_hessian_def
  by (cases pool) (auto dest!: check_precision_Inr simp: fill_pool_serial)

lemma maj_hessian_high_prec_Inr:
  "maj_hessian_high_prec d od pool n_cpus m = Inr H \<Longrightarrow>
     H = symmetrize (fill_serial d od m) m \<and> (\<forall>i<m. \<forall>j<m. \<not> isnan (H i j) \<and> \<not> isinf (H i j))"
  unfolding maj_hessian_high_prec_def
  by (auto dest!: check_precision_Inr simp: fill_pool_serial split: if_splits)

lemma priv_maj_curvature_Inr:
  "priv_maj_curvature diag off_diag psum pool m epsdJ cs rtol = Inr (H, flag, err) \<Longrightarrow>
     maj_hessian (diag epsdJ) (off_diag epsdJ) pool m = Inr H"
  by (auto simp: priv_maj_curvature_def Let_def split: if_splits sum.splits)

lemma priv_maj_curvature_high_prec_Inr:
  "priv_maj_curvature_high_prec diag off_diag pool n_cpus m epsdJ cs rtol = Inr (H, flag, err) \<Longrightarrow>
     maj_hessian_high_prec (diag epsdJ) (off_diag epsdJ) pool n_cpus m = Inr H"
  by (auto simp: priv_maj_curvature_high_prec_def Let_def split: if_splits sum.splits)



lemma upt_0_2: "[0..<2] = [0, Suc 0]"
  by (simp add: upt_rec)

lemma example_off_diagonal:
  "fsub (Fin 3) (fadd (fdiv (Fin 2) (Fin 2)) (fdiv (Fin 2) (Fin 2))) = Fin 1"
  by (simp add: round64_eval isdouble_def fsub_def)

lemma example_diagonal: "fdiv (fadd (Fin 2) (Fin 2)) (Fin 2) = Fin 2"
  by (simp add: round64_eval isdouble_def fsub_def)


lemma maj_hessian_example:
  "maj_hessian (\<lambda>i. Fin 2) (\<lambda>ij. Fin 3) pool 2 = Inr (symmetrize (fill_serial (\<lambda>i. Fin 2) (\<lambda>ij. Fin 3) 2) 2)"
  by (cases pool)
     (simp_all add: maj_hessian_def check_precision_def any_entry_def upt_0_2 fill_pool_serial
        symmetrize_fill_entry example_off_diagonal example_diagonal
        del: fadd.simps fdiv.simps)


lemma maj_hessian_high_prec_example:
  "maj_hessian_high_prec (\<lambda>i. Fin 2) (\<lambda>ij. Fin 3) True n_cpus 2
     = Inr (symmetrize (fill_serial (\<lambda>i. Fin 2) (\<lambda>ij. Fin 3) 2) 2)"
  by (simp add: maj_hessian_high_prec_def check_precision_def any_entry_def upt_0_2 fill_pool_serial
        symmetrize_fill_entry example_off_diagonal example_diagonal
        del: fadd.simps fdiv.simps)


lemma check_precision_fails:
  "i < m \<Longrightarrow> j < m \<Longrightarrow> isnan (H i j) \<or> isinf (H i j) \<Longrightarrow> check_precision H m = Inl AssertionError"
  by (auto simp: check_precision_def any_entry_iff)

lemma maj_hessian_fails:
  assumes "i < m" and "isnan (d i) \<or> isinf (d i)"
  shows "maj_hessian d od pool m = Inl AssertionError"
proof -
  have "symmetrize (fill_serial d od m) m i i = fdiv (fadd (d i) (d i)) (Fin 2)"
    using assms(1) by (simp add: symmetrize_fill_entry)
  with assms fhalf_special [of "d i"]
  have "check_precision (symmetrize (fill_serial d od m) m) m = Inl AssertionError"
    by (intro check_precision_fails [of i m i]) simp_all
  then show ?thesis
    by (simp add: maj_hessian_def fill_pool_serial)
qed

text \<open>
  C8. A Hessian returned by \<^verbatim>\<open>_maj_curvature\<close> or \<^verbatim>\<open>_maj_curvature_high_prec\<close> has no NaN and no
  infinite entry. The assertions are a hard failure: when a raw diagonal value is NaN or
  infinite (it is then an entry of the assembled matrix), \<^verbatim>\<open>_maj_curvature\<close> raises
  AssertionError instead of returning.
\<close>

theorem maj_curvature_no_nan_inf:
  "(priv_maj_curvature diag off_diag psum pool m epsdJ cs rtol = Inr (H, flag, err) \<longrightarrow>
      (\<forall>i<m. \<forall>j<m. \<not> isnan (H i j) \<and> \<not> isinf (H i j)))
   \<and> (priv_maj_curvature_high_prec diag off_diag pool n_cpus m epsdJ cs rtol = Inr (H', flag', err') \<longrightarrow>
      (\<forall>i<m. \<forall>j<m. \<not> isnan (H' i j) \<and> \<not> isinf (H' i j)))
   \<and> (k < m \<and> (isnan (diag epsdJ k) \<or> isinf (diag epsdJ k)) \<longrightarrow>
      priv_maj_curvature diag off_diag psum pool m epsdJ cs rtol = Inl AssertionError)"
proof (intro conjI impI)
  assume "priv_maj_curvature diag off_diag psum pool m epsdJ cs rtol = Inr (H, flag, err)"
  then have "maj_hessian (diag epsdJ) (off_diag epsdJ) pool m = Inr H"
    by (rule priv_maj_curvature_Inr)
  from maj_hessian_Inr [OF this]
  show "\<forall>i<m. \<forall>j<m. \<not> isnan (H i j) \<and> \<not> isinf (H i j)"
    by (rule conjunct2)
next
  assume "priv_maj_curvature_high_prec diag off_diag pool n_cpus m epsdJ cs rtol = Inr (H', flag', err')"
  then have "maj_hessian_high_prec (diag epsdJ) (off_diag epsdJ) pool n_cpus m = Inr H'"
    by (rule priv_maj_curvature_high_prec_Inr)
  from maj_hessian_high_prec_Inr [OF this]
  show "\<forall>i<m. \<forall>j<m. \<not> isnan (H' i j) \<and> \<not> isinf (H' i j)"
    by (rule conjunct2)
next
  assume "k < m \<and> (isnan (diag epsdJ k) \<or> isinf (diag epsdJ k))"
  then have "maj_hessian (diag epsdJ) (off_diag epsdJ) pool m = Inl AssertionError"
    by (intro maj_hessian_fails [of k]) simp_all
  then show "priv_maj_curvature diag off_diag psum pool m epsdJ cs rtol = Inl AssertionError"
    by (simp add: priv_maj_curvature_def)
qed

theorem maj_curvature_no_nan_inf_witness:
  "(\<exists>H flag err H' flag' err'.
     priv_maj_curvature (\<lambda>e i. Fin 2) (\<lambda>e ij. Fin 3) True True 2 (Fin (1 / 10000)) False (Fin (1 / 1000))
       = Inr (H, flag, err)
     \<and> \<not> isnan (H 0 1) \<and> \<not> isinf (H 0 1) \<and> \<not> isnan (H 1 1) \<and> \<not> isinf (H 1 1)
     \<and> priv_maj_curvature_high_prec (\<lambda>e i. Fin 2) (\<lambda>e ij. Fin 3) True (Some 1) 2 (Fin (1 / 10000)) False
           (Fin (1 / 1000)) = Inr (H', flag', err')
     \<and> \<not> isnan (H' 1 0) \<and> \<not> isinf (H' 1 0) \<and> \<not> isnan (H' 0 0) \<and> \<not> isinf (H' 0 0))
   \<and> priv_maj_curvature (\<lambda>e i. if i = 1 then NaN else Fin 2) (\<lambda>e ij. Fin 3) True True 2 (Fin (1 / 10000))
         False (Fin (1 / 1000)) = Inl AssertionError"
proof -
  define Hc where "Hc = symmetrize (fill_serial (\<lambda>i. Fin 2) (\<lambda>ij. Fin 3) 2) 2"
  have a: "priv_maj_curvature (\<lambda>e i. Fin 2) (\<lambda>e ij. Fin 3) True True 2 (Fin (1 / 10000)) False (Fin (1 / 1000))
             = Inr (Hc, None, None)"
    by (simp add: priv_maj_curvature_def maj_hessian_example Hc_def)
  have b: "priv_maj_curvature_high_prec (\<lambda>e i. Fin 2) (\<lambda>e ij. Fin 3) True (Some 1) 2 (Fin (1 / 10000)) False
             (Fin (1 / 1000)) = Inr (Hc, None, None)"
    by (simp add: priv_maj_curvature_high_prec_def maj_hessian_high_prec_example Hc_def)
  from maj_curvature_no_nan_inf [where diag = "\<lambda>e i. Fin 2" and off_diag = "\<lambda>e ij. Fin 3" and psum = True
      and pool = True and m = 2 and epsdJ = "Fin (1 / 10000)" and cs = False and rtol = "Fin (1 / 1000)"
      and H = Hc and flag = None and err = None and n_cpus = "Some 1" and H' = Hc and flag' = None
      and err' = None] a b
  have "\<forall>i<2. \<forall>j<2. \<not> isnan (Hc i j) \<and> \<not> isinf (Hc i j)"
    by blast
  then have "\<not> isnan (Hc 0 1) \<and> \<not> isinf (Hc 0 1) \<and> \<not> isnan (Hc 1 1) \<and> \<not> isinf (Hc 1 1)
      \<and> \<not> isnan (Hc 1 0) \<and> \<not> isinf (Hc 1 0) \<and> \<not> isnan (Hc 0 0) \<and> \<not> isinf (Hc 0 0)"
    by simp
  then have first: "\<exists>H flag err H' flag' err'.
     priv_maj_curvature (\<lambda>e i. Fin 2) (\<lambda>e ij. Fin 3) True True 2 (Fin (1 / 10000)) False (Fin (1 / 1000))
       = Inr (H, flag, err)
     \<and> \<not> isnan (H 0 1) \<and> \<not> isinf (H 0 1) \<and> \<not> isnan (H 1 1) \<and> \<not> isinf (H 1 1)
     \<and> priv_maj_curvature_high_prec (\<lambda>e i. Fin 2) (\<lambda>e ij. Fin 3) True (Some 1) 2 (Fin (1 / 10000)) False
           (Fin (1 / 1000)) = Inr (H', flag', err')
     \<and> \<not> isnan (H' 1 0) \<and> \<not> isinf (H' 1 0) \<and> \<not> isnan (H' 0 0) \<and> \<not> isinf (H' 0 0)"
    using a b by blast
  have "priv_maj_curvature (\<lambda>e i. if i = 1 then NaN else Fin 2) (\<lambda>e ij. Fin 3) True True 2 (Fin (1 / 10000))
         False (Fin (1 / 1000)) = Inl AssertionError"
    using maj_curvature_no_nan_inf [where diag = "\<lambda>e i. if i = 1 then NaN else Fin 2"
        and off_diag = "\<lambda>e ij. Fin 3" and psum = True and pool = True and m = 2
        and epsdJ = "Fin (1 / 10000)" and cs = False and rtol = "Fin (1 / 1000)" and k = 1]
    by simp
  with first show ?thesis by blast
qed

lemma fold_sym_setitem:
  assumes "\<forall>p \<in> set ps. fst p < snd p"
  shows "fold (\<lambda>ij H. setitem (setitem H ij (od ij)) (snd ij, fst ij) (od ij)) ps H a b =
     (if (a, b) \<in> set ps then od (a, b) else if (b, a) \<in> set ps then od (b, a) else H a b)"
  using assms
proof (induction ps arbitrary: H)
  case Nil
  show ?case by simp
next
  case (Cons p ps)
  let ?F = "\<lambda>ij H. setitem (setitem H ij (od ij)) (snd ij, fst ij) (od ij)"
  have lt: "fst p < snd p" and rest: "\<forall>q \<in> set ps. fst q < snd q"
    using Cons.prems by simp_all
  have "fold ?F (p # ps) H a b = fold ?F ps (?F p H) a b"
    by simp
  also have "\<dots> = (if (a, b) \<in> set ps then od (a, b) else if (b, a) \<in> set ps then od (b, a)
                     else ?F p H a b)"
    by (rule Cons.IH [OF rest])
  also have "\<dots> = (if (a, b) \<in> set (p # ps) then od (a, b)
                     else if (b, a) \<in> set (p # ps) then od (b, a) else H a b)"
    using lt rest by (cases p) (auto simp: setitem_apply)
  finally show ?case .
qed

lemma dkl_hessian_serial_entry:
  assumes "dkl_hessian d od pool (Some 1) m = Inr H"
  shows "H a b = (if a < b \<and> b < m then od (a, b) else if b < a \<and> a < m then od (b, a)
                  else if a = b \<and> a < m then d a else Fin 0)"
proof -
  have p: "\<forall>p \<in> set (combinations2 m). fst p < snd p"
    by (auto simp: set_combinations2)
  from assms have "H = fold (\<lambda>ij H. setitem (setitem H ij (od ij)) (snd ij, fst ij) (od ij)) (combinations2 m)
                     (fold (\<lambda>i H. setitem H (i, i) (d i)) [0..<m] zeros)"
    by (simp add: dkl_hessian_def)
  then show ?thesis
    by (auto simp: fold_sym_setitem [OF p] set_combinations2 fold_diag_entries zeros_def)
qed

lemma dkl_hessian_parallel_entry:
  assumes "dkl_hessian d od pool None m = Inr H"
  shows "H = symmetrize (fill_serial d od m) m"
  using assms by (simp add: dkl_hessian_def fill_pool_serial split: if_splits)

text \<open>
  C6. The claim is that the serial path of \<^verbatim>\<open>_dkl_curvature\<close> (\<^verbatim>\<open>n_cpus <= 1\<close>) and its pool
  path give the same Hessian. They do not: with two directions, raw diagonal values 2 and raw
  off-diagonal value 3, the serial path returns 3 off the diagonal (nothing is subtracted) and
  the pool path returns \<open>3 - (2/2 + 2/2) = 1\<close>.
\<close>

theorem dkl_curvature_serial_differs_from_parallel:
  "\<exists>Hs Hp.
     priv_dkl_curvature (\<lambda>e i. Fin 2) (\<lambda>e ij. Fin 3) True (Some 1) 2 (Fin (1 / 10000)) False (Fin (1 / 1000))
       = Inr (Hs, None)
     \<and> priv_dkl_curvature (\<lambda>e i. Fin 2) (\<lambda>e ij. Fin 3) True None 2 (Fin (1 / 10000)) False (Fin (1 / 1000))
       = Inr (Hp, None)
     \<and> Hs 0 1 = Fin 3 \<and> Hs 1 0 = Fin 3 \<and> Hp 0 1 = Fin 1 \<and> Hp 1 0 = Fin 1
     \<and> Hs 0 0 = Fin 2 \<and> Hp 0 0 = Fin 2"
proof -
  obtain Hs where s: "dkl_hessian (\<lambda>i. Fin 2) (\<lambda>ij. Fin 3) True (Some 1) 2 = Inr Hs"
    by (simp add: dkl_hessian_def)
  obtain Hp where p: "dkl_hessian (\<lambda>i. Fin 2) (\<lambda>ij. Fin 3) True None 2 = Inr Hp"
    by (simp add: dkl_hessian_def)
  have "Hs 0 1 = Fin 3" "Hs 1 0 = Fin 3" "Hs 0 0 = Fin 2"
    by (simp_all add: dkl_hessian_serial_entry [OF s])
  moreover have "Hp 0 1 = Fin 1" "Hp 1 0 = Fin 1" "Hp 0 0 = Fin 2"
    by (simp_all add: dkl_hessian_parallel_entry [OF p] symmetrize_fill_entry example_off_diagonal
        example_diagonal del: fadd.simps fdiv.simps)
  moreover have "priv_dkl_curvature (\<lambda>e i. Fin 2) (\<lambda>e ij. Fin 3) True (Some 1) 2 (Fin (1 / 10000)) False
      (Fin (1 / 1000)) = Inr (Hs, None)"
    by (simp add: priv_dkl_curvature_def s)
  moreover have "priv_dkl_curvature (\<lambda>e i. Fin 2) (\<lambda>e ij. Fin 3) True None 2 (Fin (1 / 10000)) False
      (Fin (1 / 1000)) = Inr (Hp, None)"
    by (simp add: priv_dkl_curvature_def p)
  ultimately show ?thesis by blast
qed

subsection \<open>The combinatorial index in floating point\<close>

lemma factorial_loop_pos: "0 < x \<Longrightarrow> factorial_loop x f = factorial_loop (x - 1) (fmul f (Fin (of_int x)))"
  by (subst factorial_loop.simps) simp

lemma factorial_loop_nonpos: "x \<le> 0 \<Longrightarrow> factorial_loop x f = f"
  by (subst factorial_loop.simps) simp

text \<open>
  The float factorials of 24 and 23 are not the integers \<open>24!\<close> and \<open>23!\<close> (the products are
  rounded from \<open>2\<^sup>5\<^sup>3\<close> on), and their float quotient is just below 24.
\<close>

lemma factorial_24: "factorial 24 = Fin 620448401733239409999872"
  by (simp add: factorial_def factorial_loop_pos factorial_loop_nonpos round64_eval)

lemma factorial_23: "factorial 23 = Fin 25852016738884978212864"
  by (simp add: factorial_def factorial_loop_pos factorial_loop_nonpos round64_eval)

lemma factorial_1: "factorial 1 = Fin 1"
  by (simp add: factorial_def factorial_loop_pos factorial_loop_nonpos round64_eval)

lemma binom_24_1: "binom 24 1 = Fin (6755399441055743 / 281474976710656)"
  by (simp add: binom_def factorial_24 factorial_23 factorial_1 round64_eval)

lemma int_binom_24_1: "py_int (binom 24 1) = Inr 23"
  by (simp add: binom_24_1)

lemma unravel_index_0:
  assumes "0 < j" and "j < n"
  shows "unravel_index [0, j] n = Inr (j - 1)"
  using assms by (simp add: unravel_index_def sum_int_binom_def py_range_def ebind_def)

lemma unravel_index_1_25:
  assumes "1 < j" and "j < 25"
  shows "unravel_index [1, j] 25 = Inr (j + 21)"
  using assms
  by (simp add: unravel_index_def sum_int_binom_def py_range_def ebind_def upto_rec1 int_binom_24_1)

lemma py_range_25:
  "py_range 0 25 = [0, 1, 2, 3, 4, 5, 6, 7, 8, 9, 10, 11, 12, 13, 14, 15, 16, 17, 18, 19, 20, 21,
      22, 23, 24]"
  by (simp add: py_range_def upto_rec1)

text \<open>Three positions of the enumeration of the pairs over \<open>[0,25)\<close>.\<close>

lemma combinations_25:
  "combinations (py_range 0 25) 2 ! 1 = [0, 2]"
  "combinations (py_range 0 25) 2 ! 23 = [0, 24]"
  "combinations (py_range 0 25) 2 ! 24 = [1, 2]"
  unfolding py_range_25 by (simp_all add: numeral_2_eq_2 nth_append)

text \<open>
  C4. The claim is that \<open>unravel_index\<close> returns the position of a strictly increasing tuple
  in the lexicographic enumeration, a bijection onto \<open>[0, C(n,k))\<close>, and that a tuple outside
  \<open>[0,n)\<close> fails an assertion. With \<open>n = 25\<close> the float binomial \<^verbatim>\<open>binom(24,1)\<close> is
  \<open>23.999999999999996\<close> and \<^verbatim>\<open>int\<close> truncates it to 23: the pairs \<open>(1,2)\<close> and \<open>(0,24)\<close> both get
  the index 23, where the enumeration has \<open>(0,24)\<close> at 23 and \<open>(1,2)\<close> at 24. And the tuple
  \<open>(-1,2)\<close> passes both assertions for \<open>n = 5\<close> and gets the index 2 of \<open>(0,3)\<close>.
\<close>

theorem unravel_index_collides_at_25:
  "binom 24 1 = Fin (6755399441055743 / 281474976710656)
   \<and> unravel_index [1, 2] 25 = Inr 23
   \<and> unravel_index [0, 24] 25 = Inr 23
   \<and> combinations (py_range 0 25) 2 ! 23 = [0, 24]
   \<and> combinations (py_range 0 25) 2 ! 24 = [1, 2]
   \<and> unravel_index [- 1, 2] 5 = Inr 2
   \<and> unravel_index [0, 3] 5 = Inr 2"
proof -
  have a: "unravel_index [1, 2] 25 = Inr 23"
    using unravel_index_1_25 [of 2] by simp
  have b: "unravel_index [0, 24] 25 = Inr 23"
    using unravel_index_0 [of 24 25] by simp
  have c: "unravel_index [- 1, 2] 5 = Inr 2"
    by (simp add: unravel_index_def sum_int_binom_def py_range_def ebind_def)
  have d: "unravel_index [0, 3] 5 = Inr 2"
    using unravel_index_0 [of 3 5] by simp
  from binom_24_1 a b c d combinations_25 show ?thesis by simp
qed

subsection \<open>Perturbed observables\<close>

lemma pair_index_1_25:
  "pair_index 1 0 25 = Inr 0"
  "1 < j \<Longrightarrow> j < 25 \<Longrightarrow> pair_index 1 j 25 = Inr (j + 21)"
  "0 < j \<Longrightarrow> j < 25 \<Longrightarrow> pair_index j 0 25 = Inr (j - 1)"
  by (simp_all add: pair_index_def unravel_index_0 unravel_index_1_25)

lemma delete_range_25:
  "delete (py_range 0 25) 1 = [0, 2, 3, 4, 5, 6, 7, 8, 9, 10, 11, 12, 13, 14, 15, 16, 17, 18, 19, 20, 21,
      22, 23, 24]"
  by (simp add: py_range_def upto_rec1 delete_def upt_rec)

text \<open>
  One run with 25 spins, \<open>i = 1\<close>, \<open>a = 0\<close> and \<open>eps = 1/2\<close>; all moments are 0 except the pair
  \<open>{0,2}\<close>, at position 1 of the table, which is 1. The loop writes the positions 0 and 23 to
  45.
\<close>

lemma perturbation_25:
  "jit_observables_after_perturbation_plus 25 (replicate 25 (Fin 0)) ((replicate 300 (Fin 0))[1 := Fin 1])
       1 0 (Fin (1 / 2))
     = Inr ((replicate 25 (Fin 0))[1 := Fin 0],
            (replicate 300 (Fin 0))
              [1 := Fin 1, 0 := Fin (1 / 2), 23 := Fin (1 / 2), 24 := Fin 0, 25 := Fin 0, 26 := Fin 0,
               27 := Fin 0, 28 := Fin 0, 29 := Fin 0, 30 := Fin 0, 31 := Fin 0, 32 := Fin 0, 33 := Fin 0,
               34 := Fin 0, 35 := Fin 0, 36 := Fin 0, 37 := Fin 0, 38 := Fin 0, 39 := Fin 0, 40 := Fin 0,
               41 := Fin 0, 42 := Fin 0, 43 := Fin 0, 44 := Fin 0, 45 := Fin 0])"
  by (simp add: jit_observables_after_perturbation_plus_def delete_range_25 pair_index_1_25 ebind_def
      getitem_def putitem_def fsub_def round64_eval)

text \<open>
  C7. The claim is that the mean-matching perturbation of spin \<open>i\<close> towards spin \<open>a\<close> updates
  the entry of every pair \<open>{i,j}\<close> from the entry of \<open>{j,a}\<close> in the table as it was on entry,
  and leaves every entry of a pair without \<open>i\<close> alone. With 25 spins, \<open>i = 1\<close> and \<open>a = 0\<close> the
  function looks the pair \<open>{1,2}\<close> up at \<^verbatim>\<open>unravel_index((1,2),25) = 23\<close>, the position of the pair
  \<open>{0,24}\<close>: the entry of \<open>{0,24}\<close> is changed from 0 to \<open>1/2\<close>, and the entry of \<open>{1,2}\<close> at
  position 24, which the claim sets to \<open>0 - (0 - 1)/2 = 1/2\<close> from the entry 1 of \<open>{0,2}\<close>, stays 0.
\<close>

theorem mean_matching_wrong_entry_at_25:
  "\<exists>si' sisj'.
     jit_observables_after_perturbation_plus 25 (replicate 25 (Fin 0)) ((replicate 300 (Fin 0))[1 := Fin 1])
         1 0 (Fin (1 / 2)) = Inr (si', sisj')
     \<and> combinations (py_range 0 25) 2 ! 1 = [0, 2]
     \<and> combinations (py_range 0 25) 2 ! 23 = [0, 24]
     \<and> combinations (py_range 0 25) 2 ! 24 = [1, 2]
     \<and> unravel_index [0, 24] 25 = Inr 23
     \<and> pair_index 1 2 25 = Inr 23
     \<and> (replicate 300 (Fin 0))[1 := Fin 1] ! 23 = Fin 0 \<and> sisj' ! 23 = Fin (1 / 2)
     \<and> (replicate 300 (Fin 0))[1 := Fin 1] ! 24 = Fin 0 \<and> sisj' ! 24 = Fin 0
     \<and> fsub (Fin 0) (fmul (Fin (1 / 2)) (fsub (Fin 0) (Fin 1))) = Fin (1 / 2)"
proof -
  have a: "unravel_index [0, 24] 25 = Inr 23"
    using unravel_index_0 [of 24 25] by simp
  have b: "pair_index 1 2 25 = Inr 23"
    using pair_index_1_25(2) [of 2] by simp
  have c: "fsub (Fin 0) (fmul (Fin (1 / 2)) (fsub (Fin 0) (Fin 1))) = Fin (1 / 2)"
    by (simp add: fsub_def round64_eval)
  show ?thesis
    unfolding perturbation_25 a b c combinations_25 by simp
qed

subsection \<open>Constructors\<close>






end
